theory Spec2Isabelle
  imports Complex_Main "HOL-Library.Sublist"
begin

section \<open>Strings, paths and audio\<close>

text \<open>
  A Python \<open>str\<close> is a sequence of Unicode code points; it is modelled as a list of
  natural numbers, one per code point. \<open>lit\<close> turns an ASCII literal into such a list.
\<close>

type_synonym ustr = "nat list"

definition lit :: "string \<Rightarrow> ustr" where
  "lit s = map of_char s"

text \<open>\<open>str.isspace\<close> of one code point: the white space table of CPython.\<close>

definition isspace :: "nat \<Rightarrow> bool" where
  "isspace c \<longleftrightarrow>
     (9 \<le> c \<and> c \<le> 13) \<or> (28 \<le> c \<and> c \<le> 32) \<or> c = 133 \<or> c = 160 \<or> c = 5760 \<or>
     (8192 \<le> c \<and> c \<le> 8202) \<or> c = 8232 \<or> c = 8233 \<or> c = 8239 \<or> c = 8287 \<or> c = 12288"

text \<open>\<open>str.strip()\<close>: white space removed from both ends.\<close>

definition strip :: "ustr \<Rightarrow> ustr" where
  "strip s = rev (dropWhile isspace (rev (dropWhile isspace s)))"

text \<open>\<open>s.startswith(p)\<close>.\<close>

definition startswith :: "ustr \<Rightarrow> ustr \<Rightarrow> bool" where
  "startswith s p \<longleftrightarrow> take (length p) s = p"

text \<open>\<open>sep.join(xs)\<close>.\<close>

fun join :: "ustr \<Rightarrow> ustr list \<Rightarrow> ustr" where
  "join sep [] = []"
| "join sep [x] = x"
| "join sep (x # y # ys) = x @ sep @ join sep (y # ys)"

text \<open>\<open>str(n)\<close> of a non-negative integer: its decimal digits.\<close>

fun str_nat :: "nat \<Rightarrow> ustr" where
  "str_nat n = (if n < 10 then [48 + n] else str_nat (n div 10) @ [48 + n mod 10])"

declare str_nat.simps [simp del]

text \<open>The format \<open>{n:03d}\<close>: decimal digits, padded with zeros to three places.\<close>

definition fmt_03d :: "nat \<Rightarrow> ustr" where
  "fmt_03d n = replicate (3 - length (str_nat n)) 48 @ str_nat n"

text \<open>\<open>s.rfind(c)\<close>: the index of the last occurrence, \<open>None\<close> for Python's \<open>-1\<close>.\<close>

fun rfind :: "nat \<Rightarrow> ustr \<Rightarrow> nat option" where
  "rfind c [] = None"
| "rfind c (x # xs) =
     (case rfind c xs of
        Some i \<Rightarrow> Some (Suc i)
      | None \<Rightarrow> if x = c then Some 0 else None)"

text \<open>
  \<open>PurePath.stem\<close>: the name without its last suffix. A dot in first or in last place
  starts no suffix.
\<close>

definition stem :: "ustr \<Rightarrow> ustr" where
  "stem n =
     (case rfind 46 n of
        None \<Rightarrow> n
      | Some i \<Rightarrow> if 0 < i \<and> i + 1 < length n then take i n else n)"

text \<open>
  Decoded audio (a pydub \<open>AudioSegment\<close>) is a list with one element per millisecond, so
  that \<open>len(audio)\<close> is \<open>length\<close> and the slice \<open>audio[a:b]\<close> is \<open>take\<close> after \<open>drop\<close>.
\<close>

type_synonym frames = "nat list"

text \<open>
  An input file: its \<open>Path\<close> together with what the file system holds there. \<open>st_size\<close>
  is the size in bytes; \<open>audio\<close> is what \<open>AudioSegment.from_file\<close> returns, \<open>None\<close> when
  it raises because the file cannot be decoded; \<open>readable\<close> says whether
  \<open>open(file_path, "rb")\<close> succeeds.
\<close>

record afile =
  name :: ustr
  st_size :: nat
  audio :: "frames option"
  readable :: bool

text \<open>
  A path handed to the transcription call: the source file itself, or a file of the given
  name inside the temporary directory of the run.
\<close>

datatype path = SourcePath afile | TempPath ustr

fun path_name :: "path \<Rightarrow> ustr" where
  "path_name (SourcePath f) = name f"
| "path_name (TempPath n) = n"

datatype error = DecodeError ustr | ExportError ustr | TypeError | ValueError | PrintError

text \<open>
  What a run does to the outside, in order: the calls on the progress bar and the calls of
  the remote transcription service.
\<close>

datatype event =
    Created nat
  | Described nat nat nat nat nat nat
  | Called path ustr
  | Updated nat
  | Closed

text \<open>
  The state of the outside: the temporary directory (\<open>None\<close> while it does not exist, else
  the files written there, latest first), the events so far, the output files written
  (path and content, in the order of writing), and whether standard output accepts the
  message that the \<open>finally\<close> clause of \<open>process_sequential_files\<close> prints. The other
  messages of the program only inform and are left out; that one is kept because the
  removal of the temporary directory comes after it.
\<close>

record world =
  workspace :: "(ustr \<times> frames) list option"
  trace :: "event list"
  files_written :: "(ustr \<times> ustr) list"
  stdout_open :: bool

definition emit :: "event \<Rightarrow> world \<Rightarrow> world" where
  "emit e s = s\<lparr>trace := trace s @ [e]\<rparr>"

section \<open>The transcriber\<close>

record transcriber =
  max_file_size_mb :: nat
  chunk_length_ms :: nat
  test_mode :: bool
  test_duration_ms :: nat

text \<open>The attributes \<open>__init__\<close> sets, once the API key has been found.\<close>

definition AudioTranscriber :: "bool \<Rightarrow> transcriber" where
  "AudioTranscriber tm =
     \<lparr>max_file_size_mb = 10, chunk_length_ms = 10 * 60 * 1000, test_mode = tm,
      test_duration_ms = 60 * 1000\<rparr>"

text \<open>
  \<open>get_file_size_mb\<close>: the true division by \<open>1024 * 1024\<close>, a power of two, which floating
  point performs without rounding; the quotient is kept as a rational number.
\<close>

definition get_file_size_mb :: "afile \<Rightarrow> rat" where
  "get_file_size_mb f = of_nat (st_size f) / (1024 * 1024)"

text \<open>
  pydub's \<open>make_chunks(audio, n)\<close>: \<open>ceil(len(audio) / n)\<close> slices
  \<open>audio[i * n : (i + 1) * n]\<close>.
\<close>

definition make_chunks :: "frames \<Rightarrow> nat \<Rightarrow> frames list" where
  "make_chunks a n =
     map (\<lambda>i. take n (drop (i * n) a))
       [0 ..< nat \<lceil>(of_nat (length a) :: rat) / of_nat n\<rceil>]"

definition get_chunk_count :: "transcriber \<Rightarrow> afile \<Rightarrow> error + nat" where
  "get_chunk_count t f =
     (if test_mode t then Inr 1
      else if get_file_size_mb f \<le> of_nat (max_file_size_mb t) then Inr 1
      else case audio f of
             None \<Rightarrow> Inl (DecodeError (name f))
           | Some a \<Rightarrow> Inr (length (make_chunks a (chunk_length_ms t))))"

text \<open>
  \<open>segment.export(temp_dir / n)\<close>: writes the file; it fails when the directory does not
  exist.
\<close>

definition export :: "ustr \<Rightarrow> frames \<Rightarrow> world \<Rightarrow> (error + path) \<times> world" where
  "export n a s =
     (case workspace s of
        None \<Rightarrow> (Inl (ExportError n), s)
      | Some ws \<Rightarrow> (Inr (TempPath n), s\<lparr>workspace := Some ((n, a) # ws)\<rparr>))"

text \<open>The file names \<open>f"{file_path.stem}_chunk_{i+1:03d}.mp4"\<close> and
  \<open>f"{file_path.stem}_test_1min.mp4"\<close>.\<close>

definition chunk_filename :: "ustr \<Rightarrow> nat \<Rightarrow> ustr" where
  "chunk_filename st i = st @ lit ''_chunk_'' @ fmt_03d (i + 1) @ lit ''.mp4''"

definition test_filename :: "ustr \<Rightarrow> ustr" where
  "test_filename st = st @ lit ''_test_1min.mp4''"

text \<open>The loop over \<open>enumerate(chunks)\<close>, with \<open>chunk_files\<close> as accumulator.\<close>

fun export_chunks ::
  "ustr \<Rightarrow> nat \<Rightarrow> frames list \<Rightarrow> path list \<Rightarrow> world \<Rightarrow> (error + path list) \<times> world" where
  "export_chunks st i [] chunk_files s = (Inr chunk_files, s)"
| "export_chunks st i (chunk # chunks) chunk_files s =
     (case export (chunk_filename st i) chunk s of
        (Inl e, s') \<Rightarrow> (Inl e, s')
      | (Inr chunk_path, s') \<Rightarrow>
          export_chunks st (Suc i) chunks (chunk_files @ [chunk_path]) s')"

definition chunk_audio_file ::
  "transcriber \<Rightarrow> afile \<Rightarrow> world \<Rightarrow> (error + path list) \<times> world" where
  "chunk_audio_file t f s =
     (case audio f of
        None \<Rightarrow> (Inl (DecodeError (name f)), s)
      | Some a \<Rightarrow>
          if test_mode t then
            (case export (test_filename (stem (name f))) (take (test_duration_ms t) a) s of
               (Inl e, s') \<Rightarrow> (Inl e, s')
             | (Inr test_path, s') \<Rightarrow> (Inr [test_path], s'))
          else if get_file_size_mb f \<le> of_nat (max_file_size_mb t) then (Inr [SourcePath f], s)
          else export_chunks (stem (name f)) 0 (make_chunks a (chunk_length_ms t)) [] s)"


text \<open>
  The remote transcription service: its answer to a call may depend on how many calls
  were made before, on the file and on the language. \<open>None\<close> stands for any exception
  of the call.
\<close>

type_synonym service = "nat \<Rightarrow> path \<Rightarrow> ustr \<Rightarrow> ustr option"

fun is_call :: "event \<Rightarrow> bool" where
  "is_call (Called p l) = True"
| "is_call e = False"

definition calls_made :: "world \<Rightarrow> nat" where
  "calls_made s = length (filter is_call (trace s))"

text \<open>
  Whether \<open>open(file_path, "rb")\<close> succeeds: for a source file as the file system has it,
  for a file of the temporary directory when the directory exists and holds the file.
\<close>

fun can_open :: "path \<Rightarrow> world \<Rightarrow> bool" where
  "can_open (SourcePath f) s = readable f"
| "can_open (TempPath n) s =
     (case workspace s of None \<Rightarrow> False | Some ws \<Rightarrow> map_of ws n \<noteq> None)"

text \<open>
  \<open>transcribe_audio\<close>. The arguments \<open>current_chunk\<close> and \<open>total_chunks\<close> are only
  printed and are left out. Every exception inside the \<open>try\<close> ends in the \<open>except\<close>
  branch, which returns the marker.
\<close>

definition transcribe_audio :: "service \<Rightarrow> path \<Rightarrow> ustr \<Rightarrow> world \<Rightarrow> ustr \<times> world" where
  "transcribe_audio svc file_path language s =
     (if \<not> can_open file_path s then
        (lit ''[ERROR: Could not transcribe '' @ path_name file_path @ lit '']'', s)
      else
        (case svc (calls_made s) file_path language of
           None \<Rightarrow>
             (lit ''[ERROR: Could not transcribe '' @ path_name file_path @ lit '']'',
              emit (Called file_path language) s)
         | Some transcript \<Rightarrow> (strip transcript, emit (Called file_path language) s)))"

text \<open>
  The inner loop of \<open>process_sequential_files\<close> over \<open>enumerate(chunk_files, 1)\<close>; it
  carries \<open>file_transcripts\<close> and \<open>current_chunk\<close>.
\<close>

fun transcribe_chunks ::
  "service \<Rightarrow> ustr \<Rightarrow> nat \<Rightarrow> nat \<Rightarrow> nat \<Rightarrow> nat \<Rightarrow> nat \<Rightarrow> path list \<Rightarrow> ustr list \<Rightarrow> nat \<Rightarrow> world
     \<Rightarrow> (ustr list \<times> nat) \<times> world" where
  "transcribe_chunks svc language i n_files total_chunks n_chunks j [] file_transcripts
     current_chunk s = ((file_transcripts, current_chunk), s)"
| "transcribe_chunks svc language i n_files total_chunks n_chunks j (chunk_file # rest)
     file_transcripts current_chunk s =
     (let s1 = emit (Described i n_files j n_chunks (current_chunk + 1) total_chunks) s;
          (transcript, s2) = transcribe_audio svc chunk_file language s1;
          file_transcripts' =
            (if transcript \<noteq> [] \<and> \<not> startswith transcript (lit ''[ERROR'')
             then file_transcripts @ [transcript] else file_transcripts)
      in transcribe_chunks svc language i n_files total_chunks n_chunks (Suc j) rest
           file_transcripts' (current_chunk + 1) (emit (Updated 1) s2))"

text \<open>The block of one file; the test prefix starts with the code point U+1F9EA.\<close>

definition file_block :: "transcriber \<Rightarrow> nat \<Rightarrow> afile \<Rightarrow> ustr \<Rightarrow> ustr" where
  "file_block t i f combined_transcript =
     lit ''=== '' @ (if test_mode t then 129514 # lit '' TEST '' else []) @ lit ''File '' @
     str_nat i @ lit '': '' @ name f @ lit '' ==='' @ [10] @ combined_transcript"

text \<open>
  The outer loop over \<open>enumerate(files, 1)\<close>; it carries \<open>all_transcripts\<close> and
  \<open>current_chunk\<close>. An exception of \<open>chunk_audio_file\<close> leaves the loop.
\<close>

fun process_files ::
  "transcriber \<Rightarrow> service \<Rightarrow> ustr \<Rightarrow> nat \<Rightarrow> nat \<Rightarrow> nat \<Rightarrow> afile list \<Rightarrow> ustr list \<Rightarrow> nat \<Rightarrow> world
     \<Rightarrow> (error + ustr list) \<times> world" where
  "process_files t svc language n_files total_chunks i [] all_transcripts current_chunk s =
     (Inr all_transcripts, s)"
| "process_files t svc language n_files total_chunks i (f # rest) all_transcripts
     current_chunk s =
     (case chunk_audio_file t f s of
        (Inl e, s1) \<Rightarrow> (Inl e, s1)
      | (Inr chunk_files, s1) \<Rightarrow>
          (case transcribe_chunks svc language i n_files total_chunks (length chunk_files) 1
                  chunk_files [] current_chunk s1 of
             ((file_transcripts, current_chunk'), s2) \<Rightarrow>
               process_files t svc language n_files total_chunks (Suc i) rest
                 (if file_transcripts \<noteq> []
                  then all_transcripts @ [file_block t i f (join (lit '' '') file_transcripts)]
                  else all_transcripts)
                 current_chunk' s2))"

text \<open>\<open>sum(self.get_chunk_count(file_path) for file_path in files)\<close>.\<close>

fun sum_chunk_counts :: "transcriber \<Rightarrow> afile list \<Rightarrow> nat \<Rightarrow> error + nat" where
  "sum_chunk_counts t [] acc = Inr acc"
| "sum_chunk_counts t (f # rest) acc =
     (case get_chunk_count t f of
        Inl e \<Rightarrow> Inl e
      | Inr n \<Rightarrow> sum_chunk_counts t rest (acc + n))"

text \<open>
  The body of the \<open>try\<close> in \<open>process_sequential_files\<close>. When tqdm is not installed, the
  fallback \<open>tqdm(iterable, ...)\<close> is called without its positional argument and raises.
\<close>

definition process_body ::
  "transcriber \<Rightarrow> bool \<Rightarrow> service \<Rightarrow> afile list \<Rightarrow> ustr \<Rightarrow> world \<Rightarrow> (error + ustr list) \<times> world" where
  "process_body t tqdm_installed svc files language s =
     (case sum_chunk_counts t files 0 of
        Inl e \<Rightarrow> (Inl e, s)
      | Inr total_chunks \<Rightarrow>
          if \<not> tqdm_installed then (Inl TypeError, s)
          else
            (case process_files t svc language (length files) total_chunks 1 files [] 0
                    (emit (Created total_chunks) s) of
               (Inl e, s') \<Rightarrow> (Inl e, s')
             | (Inr all_transcripts, s') \<Rightarrow> (Inr all_transcripts, emit Closed s')))"

text \<open>
  The \<open>finally\<close> clause: it prints a message and then calls
  \<open>shutil.rmtree(temp_dir, ignore_errors=True)\<close>, which removes the directory with all it
  holds. When the message cannot be printed, \<open>print\<close> raises and the removal is not
  reached.
\<close>

definition cleanup :: "world \<Rightarrow> (error + unit) \<times> world" where
  "cleanup s =
     (if stdout_open s then (Inr (), s\<lparr>workspace := None\<rparr>) else (Inl PrintError, s))"

text \<open>
  \<open>process_sequential_files\<close>: \<open>mkdtemp\<close> makes the directory, the \<open>try\<close> body runs, then
  the \<open>finally\<close> clause. An exception of the clause replaces the outcome of the body;
  otherwise the result of the body is returned or its exception goes on.
\<close>

definition process_sequential_files ::
  "transcriber \<Rightarrow> bool \<Rightarrow> service \<Rightarrow> afile list \<Rightarrow> ustr \<Rightarrow> world \<Rightarrow> (error + ustr) \<times> world" where
  "process_sequential_files t tqdm_installed svc files language s =
     (case process_body t tqdm_installed svc files language (s\<lparr>workspace := Some []\<rparr>) of
        (outcome, s') \<Rightarrow>
          (case cleanup s' of
             (Inl e, s'') \<Rightarrow> (Inl e, s'')
           | (Inr u, s'') \<Rightarrow>
               (case outcome of
                  Inl e \<Rightarrow> (Inl e, s'')
                | Inr all_transcripts \<Rightarrow> (Inr (join [10, 10] all_transcripts), s''))))"

section \<open>The run as the specification describes it\<close>

text \<open>
  The definitions of this section are not translations of functions of the program: they
  say, in the words of the specification, what a run is expected to return and to do, and
  the properties below compare the program with them.
\<close>

text \<open>
  The segments of a file that decodes, in ordinal order: the one truncated sample in test
  mode, the file itself when it is within the size limit, else one file of the temporary
  directory per window.
\<close>

definition segments :: "transcriber \<Rightarrow> afile \<Rightarrow> path list" where
  "segments t f =
     (case audio f of
        None \<Rightarrow> []
      | Some a \<Rightarrow>
          if test_mode t then [TempPath (test_filename (stem (name f)))]
          else if get_file_size_mb f \<le> of_nat (max_file_size_mb t) then [SourcePath f]
          else map (\<lambda>k. TempPath (chunk_filename (stem (name f)) k))
                 [0 ..< length (make_chunks a (chunk_length_ms t))])"

text \<open>
  Whether the file of a segment can be opened when its turn comes: a source file as the
  file system has it, a file of the temporary directory always, since it has just been
  written.
\<close>

fun openable :: "path \<Rightarrow> bool" where
  "openable (SourcePath f) = readable f"
| "openable (TempPath n) = True"

text \<open>
  The text of a successful outcome: the service answered, and the answer without the
  white space at its ends is not empty and does not begin with \<open>[ERROR\<close>.
\<close>

definition successful_text :: "ustr option \<Rightarrow> ustr option" where
  "successful_text answer =
     (case answer of
        None \<Rightarrow> None
      | Some raw \<Rightarrow>
          if strip raw = [] \<or> startswith (strip raw) (lit ''[ERROR'') then None
          else Some (strip raw))"

text \<open>
  The texts of the successful segments of one file, in ordinal order. \<open>k\<close> counts the calls
  of the service made so far; a segment whose file cannot be opened fails without a call.
\<close>

fun spec_texts :: "service \<Rightarrow> ustr \<Rightarrow> nat \<Rightarrow> path list \<Rightarrow> ustr list" where
  "spec_texts svc language k [] = []"
| "spec_texts svc language k (p # ps) =
     (if openable p then
        (case successful_text (svc k p language) of None \<Rightarrow> [] | Some text \<Rightarrow> [text]) @
        spec_texts svc language (Suc k) ps
      else spec_texts svc language k ps)"

text \<open>
  The blocks of the combined transcript: for every file with at least one successful
  segment, in the order of the list, the header with the index \<open>i\<close> of the file and its
  name, followed by the successful texts joined with single spaces.
\<close>

fun spec_blocks :: "transcriber \<Rightarrow> service \<Rightarrow> ustr \<Rightarrow> nat \<Rightarrow> nat \<Rightarrow> afile list \<Rightarrow> ustr list" where
  "spec_blocks t svc language i k [] = []"
| "spec_blocks t svc language i k (f # fs) =
     (if spec_texts svc language k (segments t f) = [] then []
      else [file_block t i f (join (lit '' '') (spec_texts svc language k (segments t f)))]) @
     spec_blocks t svc language (Suc i) (k + length (filter openable (segments t f))) fs"

text \<open>
  The events of the segments of one file, and of a list of files: for every segment the
  description of the progress bar, the call of the service when the file can be opened,
  and the update of the bar by one.
\<close>

fun segment_events ::
  "nat \<Rightarrow> nat \<Rightarrow> nat \<Rightarrow> nat \<Rightarrow> ustr \<Rightarrow> nat \<Rightarrow> nat \<Rightarrow> path list \<Rightarrow> event list" where
  "segment_events i n_files n_chunks total_chunks language j cur [] = []"
| "segment_events i n_files n_chunks total_chunks language j cur (p # ps) =
     Described i n_files j n_chunks (cur + 1) total_chunks #
     (if openable p then [Called p language] else []) @ [Updated 1] @
     segment_events i n_files n_chunks total_chunks language (Suc j) (Suc cur) ps"

fun file_events ::
  "transcriber \<Rightarrow> ustr \<Rightarrow> nat \<Rightarrow> nat \<Rightarrow> nat \<Rightarrow> nat \<Rightarrow> afile list \<Rightarrow> event list" where
  "file_events t language n_files total_chunks i cur [] = []"
| "file_events t language n_files total_chunks i cur (f # fs) =
     segment_events i n_files (length (segments t f)) total_chunks language 1 cur (segments t f) @
     file_events t language n_files total_chunks (Suc i) (cur + length (segments t f)) fs"

text \<open>
  The events of a whole run and its outcome before the blocks are joined. Planning fails
  on the first large file that does not decode; the loop stops at the first file that does
  not decode.
\<close>

definition run_events :: "transcriber \<Rightarrow> bool \<Rightarrow> ustr \<Rightarrow> afile list \<Rightarrow> event list" where
  "run_events t tqdm_installed language files =
     (case sum_chunk_counts t files 0 of
        Inl e \<Rightarrow> []
      | Inr total_chunks \<Rightarrow>
          if \<not> tqdm_installed then []
          else Created total_chunks #
               file_events t language (length files) total_chunks 1 0
                 (takeWhile (\<lambda>f. audio f \<noteq> None) files) @
               (if \<forall>f \<in> set files. audio f \<noteq> None then [Closed] else []))"

definition run_outcome ::
  "transcriber \<Rightarrow> bool \<Rightarrow> service \<Rightarrow> ustr \<Rightarrow> nat \<Rightarrow> afile list \<Rightarrow> error + ustr list" where
  "run_outcome t tqdm_installed svc language k files =
     (case sum_chunk_counts t files 0 of
        Inl e \<Rightarrow> Inl e
      | Inr total_chunks \<Rightarrow>
          if \<not> tqdm_installed then Inl TypeError
          else if \<forall>f \<in> set files. audio f \<noteq> None
          then Inr (spec_blocks t svc language 1 k files)
          else Inl (DecodeError (name (hd (dropWhile (\<lambda>f. audio f \<noteq> None) files)))))"

text \<open>
  What an event shows of the progress counter: its creation shows zero of the total, a
  description shows the number of the segment being attempted and the total, an update
  shows the step.
\<close>

fun counter_view :: "event \<Rightarrow> (nat \<times> nat + nat) option" where
  "counter_view (Created n) = Some (Inl (0, n))"
| "counter_view (Described i n_files j n_chunks current_chunk total_chunks) =
     Some (Inl (current_chunk, total_chunks))"
| "counter_view (Updated n) = Some (Inr n)"
| "counter_view (Called p l) = None"
| "counter_view Closed = None"

section \<open>Properties\<close>

subsection \<open>Chunking\<close>

lemma length_make_chunks:
  "length (make_chunks a n) = nat \<lceil>real (length a) / real n\<rceil>"
  unfolding make_chunks_def
  by (simp, metis Ratreal_def of_rat_ceiling of_rat_of_nat_eq real_divide_code)

lemma concat_windows:
  "concat (map (\<lambda>i. take n (drop (i * n) a)) [0 ..< k]) = take (k * n) a"
proof (induction k)
  case 0
  then show ?case by simp
next
  case (Suc k)
  have "take (k * n + n) a = take (k * n) a @ take n (drop (k * n) a)"
    by (rule take_add)
  with Suc show ?case by (simp add: add.commute)
qed

lemma ceil_covers: "0 < n \<Longrightarrow> m \<le> nat \<lceil>real m / real n\<rceil> * n"
  by (smt (verit, ccfv_SIG) mult_imp_less_div_pos of_nat_0_less_iff
    of_nat_ceiling of_nat_le_iff of_nat_mult)

lemma export_chunks_ok:
  "workspace s = Some ws \<Longrightarrow>
   export_chunks st i cs acc s =
     (Inr (acc @ map (\<lambda>k. TempPath (chunk_filename st k)) [i ..< i + length cs]),
      s\<lparr>workspace := Some (rev (zip (map (chunk_filename st) [i ..< i + length cs]) cs) @ ws)\<rparr>)"
proof (induction cs arbitrary: i acc s ws)
  case Nil
  then show ?case by simp
next
  case (Cons c cs)
  have ex: "export (chunk_filename st i) c s =
      (Inr (TempPath (chunk_filename st i)), s\<lparr>workspace := Some ((chunk_filename st i, c) # ws)\<rparr>)"
    using Cons.prems by (simp add: export_def)
  have up: "[i ..< i + length (c # cs)] = i # [Suc i ..< Suc i + length cs]"
    by (subst upt_rec) simp
  show ?case
    unfolding up
    by (simp add: ex Cons.IH [of "s\<lparr>workspace := Some ((chunk_filename st i, c) # ws)\<rparr>" "(chunk_filename st i, c) # ws"])
qed

lemma make_chunks_concat: "0 < n \<Longrightarrow> concat (make_chunks a n) = a"
proof -
  assume n: "0 < n"
  have "make_chunks a n = map (\<lambda>i. take n (drop (i * n) a)) [0 ..< nat \<lceil>real (length a) / real n\<rceil>]"
    using length_make_chunks [of a n] by (simp add: make_chunks_def)
  then have "concat (make_chunks a n) = take (nat \<lceil>real (length a) / real n\<rceil> * n) a"
    by (simp add: concat_windows)
  with ceil_covers [OF n, of "length a"] show ?thesis by simp
qed

lemma make_chunks_nth:
  "k < length (make_chunks a n) \<Longrightarrow> make_chunks a n ! k = take n (drop (k * n) a)"
  by (simp add: make_chunks_def)

lemma below_ceiling:
  assumes "0 < n" "j < nat \<lceil>real m / real n\<rceil>"
  shows "j * n < m"
proof -
  have "int j < \<lceil>real m / real n\<rceil>" using assms(2) by linarith
  then have "real j < real m / real n" by (simp add: less_ceiling_iff)
  then have "real j * real n < real m" using assms(1) by (simp add: pos_less_divide_eq)
  then have "real (j * n) < real m" by simp
  then show ?thesis by (simp only: of_nat_less_iff)
qed

lemma make_chunks_full:
  assumes "0 < n" "Suc k < length (make_chunks a n)"
  shows "length (make_chunks a n ! k) = n"
proof -
  have "Suc k * n < length a"
    using below_ceiling [OF assms(1), of "Suc k" "length a"] assms(2)
    by (simp add: length_make_chunks)
  then have "n \<le> length a - k * n" by simp
  moreover have "k < length (make_chunks a n)" using assms(2) by simp
  ultimately show ?thesis by (simp add: make_chunks_nth)
qed

lemma make_chunks_nonempty:
  assumes "0 < n" "k < length (make_chunks a n)"
  shows "make_chunks a n ! k \<noteq> [] \<and> length (make_chunks a n ! k) \<le> n"
proof -
  have "k * n < length a"
    using below_ceiling [OF assms(1), of k "length a"] assms(2)
    by (simp add: length_make_chunks)
  then show ?thesis using assms by (simp add: make_chunks_nth)
qed

lemma size_le_ceiling:
  "get_file_size_mb f \<le> of_nat (max_file_size_mb (AudioTranscriber tm)) \<longleftrightarrow> st_size f \<le> 10 * 1024 * 1024"
  by (simp add: get_file_size_mb_def AudioTranscriber_def)

text \<open>
  Claim C2. Outside test mode the plan of a file of at most \<open>10 * 1024 * 1024\<close> bytes is
  one segment, and the file itself is what is transcribed, nothing being written (WHOLE);
  the plan of a larger file is the ceiling of its duration over the window of ten minutes,
  and that many files are written to the temporary directory (SPLIT), which are the
  consecutive windows of the audio, all of full length but possibly the last.
\<close>

theorem chunk_plan_by_size:
  assumes "\<not> tm"
  shows
    "get_chunk_count (AudioTranscriber tm) f =
       (if st_size f \<le> 10 * 1024 * 1024 then Inr 1
        else case audio f of
               None \<Rightarrow> Inl (DecodeError (name f))
             | Some a \<Rightarrow> Inr (nat \<lceil>real (length a) / (10 * 60 * 1000)\<rceil>)) \<and>
     (\<forall>a ws. audio f = Some a \<and> workspace s = Some ws \<longrightarrow>
        chunk_audio_file (AudioTranscriber tm) f s =
          (if st_size f \<le> 10 * 1024 * 1024 then (Inr [SourcePath f], s)
           else
             (Inr (map (\<lambda>k. TempPath (chunk_filename (stem (name f)) k))
                     [0 ..< nat \<lceil>real (length a) / (10 * 60 * 1000)\<rceil>]),
              s\<lparr>workspace :=
                  Some (rev (zip (map (chunk_filename (stem (name f)))
                                    [0 ..< nat \<lceil>real (length a) / (10 * 60 * 1000)\<rceil>])
                                 (make_chunks a (10 * 60 * 1000))) @ ws)\<rparr>)) \<and>
        concat (make_chunks a (10 * 60 * 1000)) = a \<and>
        (\<forall>k < length (make_chunks a (10 * 60 * 1000)).
           make_chunks a (10 * 60 * 1000) ! k = take (10 * 60 * 1000) (drop (k * (10 * 60 * 1000)) a) \<and>
           make_chunks a (10 * 60 * 1000) ! k \<noteq> [] \<and>
           (Suc k < length (make_chunks a (10 * 60 * 1000)) \<longrightarrow>
              length (make_chunks a (10 * 60 * 1000) ! k) = 10 * 60 * 1000)))"
proof -
  let ?t = "AudioTranscriber tm"
  have tm: "\<not> test_mode ?t" and cl: "chunk_length_ms ?t = 10 * 60 * 1000"
    using assms by (simp_all add: AudioTranscriber_def)
  have count: "get_chunk_count ?t f =
       (if st_size f \<le> 10 * 1024 * 1024 then Inr 1
        else case audio f of
               None \<Rightarrow> Inl (DecodeError (name f))
             | Some a \<Rightarrow> Inr (nat \<lceil>real (length a) / (10 * 60 * 1000)\<rceil>))"
    using tm by (simp add: get_chunk_count_def size_le_ceiling cl length_make_chunks split: option.splits)
  have mat: "chunk_audio_file ?t f s =
          (if st_size f \<le> 10 * 1024 * 1024 then (Inr [SourcePath f], s)
           else
             (Inr (map (\<lambda>k. TempPath (chunk_filename (stem (name f)) k))
                     [0 ..< nat \<lceil>real (length a) / (10 * 60 * 1000)\<rceil>]),
              s\<lparr>workspace :=
                  Some (rev (zip (map (chunk_filename (stem (name f)))
                                    [0 ..< nat \<lceil>real (length a) / (10 * 60 * 1000)\<rceil>])
                                 (make_chunks a (10 * 60 * 1000))) @ ws)\<rparr>))"
    if "audio f = Some a" "workspace s = Some ws" for a ws
    using that tm
    by (simp add: chunk_audio_file_def size_le_ceiling cl export_chunks_ok [OF that(2)]
        length_make_chunks)
  have win: "concat (make_chunks a (10 * 60 * 1000)) = a \<and>
        (\<forall>k < length (make_chunks a (10 * 60 * 1000)).
           make_chunks a (10 * 60 * 1000) ! k = take (10 * 60 * 1000) (drop (k * (10 * 60 * 1000)) a) \<and>
           make_chunks a (10 * 60 * 1000) ! k \<noteq> [] \<and>
           (Suc k < length (make_chunks a (10 * 60 * 1000)) \<longrightarrow>
              length (make_chunks a (10 * 60 * 1000) ! k) = 10 * 60 * 1000))" for a
    using make_chunks_concat [of "10 * 60 * 1000" a] make_chunks_nth [of _ a "10 * 60 * 1000"]
      make_chunks_nonempty [of "10 * 60 * 1000" _ a] make_chunks_full [of "10 * 60 * 1000" _ a]
    by simp
  show ?thesis using count mat win by blast
qed


theorem chunk_plan_by_size_witness:
  "\<not> False \<and>
   get_chunk_count (AudioTranscriber False)
     \<lparr>name = lit ''meet_2.m4a'', st_size = 26214400, audio = Some (replicate 1320000 0), readable = True\<rparr> = Inr 3 \<and>
   get_chunk_count (AudioTranscriber False)
     \<lparr>name = lit ''meet_1.m4a'', st_size = 10485760, audio = Some (replicate 1320000 0), readable = True\<rparr> = Inr 1 \<and>
   get_chunk_count (AudioTranscriber False)
     \<lparr>name = lit ''meet_1.m4a'', st_size = 10485761, audio = Some (replicate 1320000 0), readable = True\<rparr> = Inr 3 \<and>
   fst (chunk_audio_file (AudioTranscriber False)
     \<lparr>name = lit ''meet_2.m4a'', st_size = 26214400, audio = Some (replicate 1320000 0), readable = True\<rparr>
     \<lparr>workspace = Some [], trace = [], files_written = [], stdout_open = True\<rparr>) =
     Inr (map (\<lambda>k. TempPath (chunk_filename (stem (lit ''meet_2.m4a'')) k)) [0 ..< 3]) \<and>
   fst (chunk_audio_file (AudioTranscriber False)
     \<lparr>name = lit ''meet_1.m4a'', st_size = 10485760, audio = Some (replicate 1320000 0), readable = True\<rparr>
     \<lparr>workspace = Some [], trace = [], files_written = [], stdout_open = True\<rparr>) =
     Inr [SourcePath \<lparr>name = lit ''meet_1.m4a'', st_size = 10485760, audio = Some (replicate 1320000 0), readable = True\<rparr>]"
proof -
  have n: "nat \<lceil>real 1320000 / (10 * 60 * 1000)\<rceil> = 3" by simp
  show ?thesis
    using chunk_plan_by_size [of False
        "\<lparr>name = lit ''meet_2.m4a'', st_size = 26214400, audio = Some (replicate 1320000 0), readable = True\<rparr>"
        "\<lparr>workspace = Some [], trace = [], files_written = [], stdout_open = True\<rparr>"]
      chunk_plan_by_size [of False
        "\<lparr>name = lit ''meet_1.m4a'', st_size = 10485760, audio = Some (replicate 1320000 0), readable = True\<rparr>"
        "\<lparr>workspace = Some [], trace = [], files_written = [], stdout_open = True\<rparr>"]
      chunk_plan_by_size [of False
        "\<lparr>name = lit ''meet_1.m4a'', st_size = 10485761, audio = Some (replicate 1320000 0), readable = True\<rparr>"
        "\<lparr>workspace = Some [], trace = [], files_written = [], stdout_open = True\<rparr>"]
    by (simp add: n)
qed

text \<open>
  Claim C9. In test mode the plan of every file is one segment, whatever its size and
  duration; for every file that decodes, \<open>chunk_audio_file\<close> returns exactly one path, a
  file written into the temporary directory, and what it holds is the first 60000
  milliseconds of the audio, or all of it when it is shorter.
\<close>

theorem test_mode_single_truncated_segment:
  assumes "audio f = Some a" and "workspace s = Some ws"
  shows
    "get_chunk_count (AudioTranscriber True) f = Inr 1 \<and>
     chunk_audio_file (AudioTranscriber True) f s =
       (Inr [TempPath (test_filename (stem (name f)))],
        s\<lparr>workspace := Some ((test_filename (stem (name f)), take 60000 a) # ws)\<rparr>) \<and>
     length (take 60000 a) \<le> 60000 \<and> prefix (take 60000 a) a"
  using assms
  by (simp add: get_chunk_count_def chunk_audio_file_def AudioTranscriber_def export_def
      take_is_prefix)

theorem test_mode_single_truncated_segment_witness:
  "get_chunk_count (AudioTranscriber True)
     \<lparr>name = lit ''meet_2.m4a'', st_size = 26214400, audio = Some (replicate 1320000 0), readable = True\<rparr> = Inr 1 \<and>
   chunk_audio_file (AudioTranscriber True)
     \<lparr>name = lit ''meet_2.m4a'', st_size = 26214400, audio = Some (replicate 1320000 0), readable = True\<rparr>
     \<lparr>workspace = Some [], trace = [], files_written = [], stdout_open = True\<rparr> =
     (Inr [TempPath (lit ''meet_2_test_1min.mp4'')],
      \<lparr>workspace = Some [(lit ''meet_2_test_1min.mp4'', replicate 60000 0)], trace = [],
         files_written = [], stdout_open = True\<rparr>)"
proof -
  have st: "test_filename (stem (lit ''meet_2.m4a'')) = lit ''meet_2_test_1min.mp4''"
    by (simp add: stem_def lit_def test_filename_def)
  show ?thesis
    using test_mode_single_truncated_segment
      [of "\<lparr>name = lit ''meet_2.m4a'', st_size = 26214400, audio = Some (replicate 1320000 0), readable = True\<rparr>"
          "replicate 1320000 0" "\<lparr>workspace = Some [], trace = [], files_written = [], stdout_open = True\<rparr>" "[]"]
    by (simp add: st)
qed

subsection \<open>One transcription call\<close>






subsection \<open>The temporary directory\<close>

text \<open>
  Claim C8. The \<open>finally\<close> clause prints a message before it removes the temporary
  directory. Here standard output does not accept that message: the run over one small
  file, whose body ends normally, ends with the exception of \<open>print\<close>, and the directory
  made at the start is still there.
\<close>

theorem workspace_left_when_cleanup_message_fails:
  "process_sequential_files (AudioTranscriber False) True (\<lambda>k p l. Some (lit ''sawasdee krub''))
     [\<lparr>name = lit ''meet_1.m4a'', st_size = 5, audio = Some [0, 0], readable = True\<rparr>] (lit ''th'')
     \<lparr>workspace = None, trace = [], files_written = [], stdout_open = False\<rparr> =
     (Inl PrintError,
      \<lparr>workspace = Some [],
         trace = [Created 1, Described 1 1 1 1 1 1,
                  Called (SourcePath \<lparr>name = lit ''meet_1.m4a'', st_size = 5, audio = Some [0, 0], readable = True\<rparr>) (lit ''th''),
                  Updated 1, Closed],
         files_written = [], stdout_open = False\<rparr>)"
  by (simp add: process_sequential_files_def process_body_def cleanup_def chunk_audio_file_def
      get_chunk_count_def get_file_size_mb_def AudioTranscriber_def transcribe_audio_def
      emit_def calls_made_def startswith_def strip_def isspace_def lit_def)

subsection \<open>The run of \<open>process_sequential_files\<close>\<close>

lemma calls_segment_events:
  "length (filter is_call (segment_events i nf nc tot l j cur ps)) = length (filter openable ps)"
  by (induction ps arbitrary: j cur) simp_all

lemma can_open_trace [simp]: "can_open p (s\<lparr>trace := tr\<rparr>) = can_open p s"
  by (cases p) simp_all

lemma can_open_emit [simp]: "can_open p (emit e s) = can_open p s"
  by (simp add: emit_def)

lemma calls_made_emit:
  "calls_made (emit e s) = (if is_call e then Suc (calls_made s) else calls_made s)"
  by (simp add: calls_made_def emit_def)

lemma keep_successful:
  "(case svc k p l of None \<Rightarrow> lit ''[ERROR: Could not transcribe '' @ path_name p @ lit '']''
      | Some raw \<Rightarrow> strip raw) = r \<Longrightarrow>
   (if r \<noteq> [] \<and> \<not> startswith r (lit ''[ERROR'') then ft @ [r] else ft) =
   ft @ (case successful_text (svc k p l) of None \<Rightarrow> [] | Some t \<Rightarrow> [t])"
  by (auto simp: successful_text_def startswith_def lit_def split: option.splits)

lemma transcribe_chunks_ok:
  "\<forall>p \<in> set ps. can_open p s = openable p \<Longrightarrow>
   transcribe_chunks svc l i nf tot nc j ps ft cur s =
     ((ft @ spec_texts svc l (calls_made s) ps, cur + length ps),
      s\<lparr>trace := trace s @ segment_events i nf nc tot l j cur ps\<rparr>)"
proof (induction ps arbitrary: j ft cur s)
  case Nil
  then show ?case by simp
next
  case (Cons p ps)
  let ?s1 = "emit (Described i nf j nc (Suc cur) tot) s"
  show ?case
  proof (cases "openable p")
    case True
    let ?r = "case svc (calls_made s) p l of
                None \<Rightarrow> lit ''[ERROR: Could not transcribe '' @ path_name p @ lit '']''
              | Some raw \<Rightarrow> strip raw"
    let ?s3 = "emit (Updated (Suc 0)) (emit (Called p l) ?s1)"
    let ?ft = "ft @ (case successful_text (svc (calls_made s) p l) of None \<Rightarrow> [] | Some t \<Rightarrow> [t])"
    have op: "can_open p ?s1" using Cons.prems True by simp
    have ta: "transcribe_audio svc p l ?s1 = (?r, emit (Called p l) ?s1)"
      using op by (simp add: transcribe_audio_def calls_made_emit split: option.splits)
    have rest: "\<forall>q \<in> set ps. can_open q ?s3 = openable q" using Cons.prems by simp
    have cm: "calls_made ?s3 = Suc (calls_made s)" by (simp add: calls_made_emit)
    have st: "?s3\<lparr>trace := trace ?s3 @ evs\<rparr> =
        s\<lparr>trace := trace s @ Described i nf j nc (Suc cur) tot # Called p l # Updated (Suc 0) # evs\<rparr>" for evs
      by (simp add: emit_def)
    have step: "transcribe_chunks svc l i nf tot nc j (p # ps) ft cur s =
        transcribe_chunks svc l i nf tot nc (Suc j) ps ?ft (Suc cur) ?s3"
      by (simp add: ta keep_successful [OF refl])
    have sp: "?ft @ spec_texts svc l (Suc (calls_made s)) ps = ft @ spec_texts svc l (calls_made s) (p # ps)"
      using True by simp
    show ?thesis
      unfolding step Cons.IH [OF rest] cm st
      using sp True by simp
  next
    case False
    let ?m = "lit ''[ERROR: Could not transcribe '' @ path_name p @ lit '']''"
    let ?s3 = "emit (Updated (Suc 0)) ?s1"
    have op: "\<not> can_open p ?s1" using Cons.prems False by simp
    have ta: "transcribe_audio svc p l ?s1 = (?m, ?s1)"
      using op by (simp add: transcribe_audio_def)
    have mk: "startswith ?m (lit ''[ERROR'')" by (simp add: startswith_def lit_def)
    have rest: "\<forall>q \<in> set ps. can_open q ?s3 = openable q" using Cons.prems by simp
    have cm: "calls_made ?s3 = calls_made s" by (simp add: calls_made_emit)
    have st: "?s3\<lparr>trace := trace ?s3 @ evs\<rparr> =
        s\<lparr>trace := trace s @ Described i nf j nc (Suc cur) tot # Updated (Suc 0) # evs\<rparr>" for evs
      by (simp add: emit_def)
    have step: "transcribe_chunks svc l i nf tot nc j (p # ps) ft cur s =
        transcribe_chunks svc l i nf tot nc (Suc j) ps ft (Suc cur) ?s3"
      using mk by (simp add: ta)
    show ?thesis
      unfolding step Cons.IH [OF rest] cm st
      using False by simp
  qed
qed


lemma chunk_audio_file_undecodable:
  "audio f = None \<Longrightarrow> chunk_audio_file t f s = (Inl (DecodeError (name f)), s)"
  by (simp add: chunk_audio_file_def)

lemma can_open_written:
  "length ns = length cs \<Longrightarrow> n \<in> set ns \<Longrightarrow>
   can_open (TempPath n) (s\<lparr>workspace := Some (rev (zip ns cs) @ ws)\<rparr>)"
proof -
  assume "length ns = length cs" "n \<in> set ns"
  then have "n \<in> fst ` set (zip ns cs)" by (metis map_fst_zip set_map)
  then have "n \<in> fst ` set (rev (zip ns cs) @ ws)" by auto
  then have "map_of (rev (zip ns cs) @ ws) n \<noteq> None"
    by (metis map_of_eq_None_iff)
  then show ?thesis by simp
qed

lemma chunk_audio_file_decodable:
  assumes "audio f = Some a" and "workspace s = Some ws"
  shows "\<exists>ws'. chunk_audio_file t f s = (Inr (segments t f), s\<lparr>workspace := Some ws'\<rparr>) \<and>
           (\<forall>p \<in> set (segments t f). can_open p (s\<lparr>workspace := Some ws'\<rparr>) = openable p)"
proof (cases "test_mode t")
  case True
  then show ?thesis using assms
    by (auto simp: chunk_audio_file_def segments_def export_def)
next
  case False
  show ?thesis
  proof (cases "get_file_size_mb f \<le> of_nat (max_file_size_mb t)")
    case True
    have same: "s\<lparr>workspace := Some ws\<rparr> = s" using assms(2) by simp
    have run: "chunk_audio_file t f s = (Inr (segments t f), s)"
      using assms True \<open>\<not> test_mode t\<close> by (simp add: chunk_audio_file_def segments_def)
    have "\<forall>p \<in> set (segments t f). can_open p s = openable p"
      using assms True \<open>\<not> test_mode t\<close> by (simp add: segments_def)
    with run same show ?thesis by metis
  next
    case big: False
    let ?cs = "make_chunks a (chunk_length_ms t)"
    let ?ns = "map (chunk_filename (stem (name f))) [0 ..< length ?cs]"
    let ?ws = "rev (zip ?ns ?cs) @ ws"
    have run: "chunk_audio_file t f s = (Inr (segments t f), s\<lparr>workspace := Some ?ws\<rparr>)"
      using assms False big
      by (simp add: chunk_audio_file_def segments_def export_chunks_ok [OF assms(2)])
    have "can_open p (s\<lparr>workspace := Some ?ws\<rparr>) = openable p" if "p \<in> set (segments t f)" for p
    proof -
      from that obtain n where "p = TempPath n" "n \<in> set ?ns"
        using assms False big by (auto simp: segments_def)
      then show ?thesis using can_open_written [where ns="?ns" and cs="?cs" and n=n and s=s and ws=ws] by simp
    qed
    with run show ?thesis by blast
  qed
qed


lemma calls_made_workspace [simp]: "calls_made (s\<lparr>workspace := w\<rparr>) = calls_made s"
  by (simp add: calls_made_def)

lemma calls_made_append:
  "calls_made (s\<lparr>trace := trace s @ evs\<rparr>) = calls_made s + length (filter is_call evs)"
  by (simp add: calls_made_def)

lemma process_files_run:
  assumes "workspace s = Some ws"
  shows "\<exists>ws'. process_files t svc l nf tot i fs acc cur s =
     ((if \<forall>f \<in> set fs. audio f \<noteq> None
       then Inr (acc @ spec_blocks t svc l i (calls_made s) fs)
       else Inl (DecodeError (name (hd (dropWhile (\<lambda>f. audio f \<noteq> None) fs))))),
      s\<lparr>workspace := Some ws',
        trace := trace s @ file_events t l nf tot i cur (takeWhile (\<lambda>f. audio f \<noteq> None) fs)\<rparr>)"
  using assms
proof (induction fs arbitrary: i acc cur s ws)
  case Nil
  have "s\<lparr>workspace := Some ws, trace := trace s @ []\<rparr> = s" using Nil by simp
  then show ?case by (intro exI [of _ ws]) simp
next
  case (Cons f fs)
  show ?case
  proof (cases "audio f")
    case None
    have run: "process_files t svc l nf tot i (f # fs) acc cur s = (Inl (DecodeError (name f)), s)"
      using None by (simp add: chunk_audio_file_undecodable)
    have same: "s\<lparr>workspace := Some ws\<rparr> = s"
      using Cons.prems by simp
    show ?thesis
      by (intro exI [of _ ws]) (simp only: run, simp add: None same)
  next
    case (Some a)
    let ?segs = "segments t f"
    obtain ws1 where caf: "chunk_audio_file t f s = (Inr ?segs, s\<lparr>workspace := Some ws1\<rparr>)"
      and op: "\<forall>p \<in> set ?segs. can_open p (s\<lparr>workspace := Some ws1\<rparr>) = openable p"
      using chunk_audio_file_decodable [OF Some Cons.prems] by blast
    let ?s1 = "s\<lparr>workspace := Some ws1\<rparr>"
    let ?evs = "segment_events i nf (length ?segs) tot l (Suc 0) cur ?segs"
    let ?s2 = "?s1\<lparr>trace := trace ?s1 @ ?evs\<rparr>"
    let ?texts = "spec_texts svc l (calls_made s) ?segs"
    let ?acc = "if ?texts \<noteq> [] then acc @ [file_block t i f (join (lit '' '') ?texts)] else acc"
    let ?rest = "takeWhile (\<lambda>f. audio f \<noteq> None) fs"
    have tc: "transcribe_chunks svc l i nf tot (length ?segs) (Suc 0) ?segs [] cur ?s1 =
        ((?texts, cur + length ?segs), ?s2)"
      using transcribe_chunks_ok [OF op, of svc l i nf tot "length ?segs" "Suc 0" "[]" cur]
      by simp
    have step: "process_files t svc l nf tot i (f # fs) acc cur s =
        process_files t svc l nf tot (Suc i) fs ?acc (cur + length ?segs) ?s2"
      by (simp only: process_files.simps caf prod.case sum.case One_nat_def tc)
    have w2: "workspace ?s2 = Some ws1" by simp
    have cm: "calls_made ?s2 = calls_made s + length (filter openable ?segs)"
      by (simp add: calls_made_def calls_segment_events)
    obtain ws' where ih: "process_files t svc l nf tot (Suc i) fs ?acc (cur + length ?segs) ?s2 =
        ((if \<forall>f \<in> set fs. audio f \<noteq> None
          then Inr (?acc @ spec_blocks t svc l (Suc i) (calls_made ?s2) fs)
          else Inl (DecodeError (name (hd (dropWhile (\<lambda>f. audio f \<noteq> None) fs))))),
         ?s2\<lparr>workspace := Some ws',
           trace := trace ?s2 @ file_events t l nf tot (Suc i) (cur + length ?segs) ?rest\<rparr>)"
      using Cons.IH [OF w2] by blast
    have st: "?s2\<lparr>workspace := Some ws',
           trace := trace ?s2 @ file_events t l nf tot (Suc i) (cur + length ?segs) ?rest\<rparr> =
        s\<lparr>workspace := Some ws',
          trace := trace s @ file_events t l nf tot i cur (takeWhile (\<lambda>f. audio f \<noteq> None) (f # fs))\<rparr>"
      using Some by simp
    have bl: "?acc @ spec_blocks t svc l (Suc i) (calls_made s + length (filter openable ?segs)) fs =
        acc @ spec_blocks t svc l i (calls_made s) (f # fs)"
      by simp
    have dw: "dropWhile (\<lambda>f. audio f \<noteq> None) (f # fs) = dropWhile (\<lambda>f. audio f \<noteq> None) fs"
      and al: "(\<forall>g \<in> set (f # fs). audio g \<noteq> None) = (\<forall>g \<in> set fs. audio g \<noteq> None)"
      using Some by simp_all
    show ?thesis
      by (intro exI [of _ ws']) (simp only: step ih st cm bl dw al)
  qed
qed

lemma sum_chunk_counts_acc:
  "sum_chunk_counts t fs acc =
     (case sum_chunk_counts t fs 0 of Inl e \<Rightarrow> Inl e | Inr n \<Rightarrow> Inr (acc + n))"
proof (induction fs arbitrary: acc)
  case Nil
  then show ?case by simp
next
  case (Cons f fs)
  show ?case
  proof (cases "get_chunk_count t f")
    case (Inl e)
    then show ?thesis by simp
  next
    case (Inr n)
    then show ?thesis
      using Cons.IH [of "acc + n"] Cons.IH [of n] by (simp split: sum.splits)
  qed
qed

lemma get_chunk_count_decodable:
  "audio f = Some a \<Longrightarrow> get_chunk_count t f = Inr (length (segments t f))"
  by (simp add: get_chunk_count_def segments_def)

lemma get_chunk_count_fails:
  "get_chunk_count t f = Inl e \<Longrightarrow> audio f = None \<and> e = DecodeError (name f)"
  by (simp add: get_chunk_count_def split: if_splits option.splits)

lemma sum_chunk_counts_fails:
  "sum_chunk_counts t fs acc = Inl e \<Longrightarrow> \<exists>f \<in> set fs. audio f = None \<and> e = DecodeError (name f)"
proof (induction fs arbitrary: acc)
  case Nil
  then show ?case by simp
next
  case (Cons f fs)
  show ?case
  proof (cases "get_chunk_count t f")
    case (Inl e')
    then show ?thesis using Cons.prems get_chunk_count_fails [of t f e'] by simp
  next
    case (Inr n)
    then show ?thesis using Cons.prems Cons.IH [of "acc + n"] by simp
  qed
qed

lemma sum_chunk_counts_sum:
  "sum_chunk_counts t fs 0 = Inr tot \<Longrightarrow>
   tot = sum_list (map (\<lambda>f. case get_chunk_count t f of Inl e \<Rightarrow> 0 | Inr n \<Rightarrow> n) fs) \<and>
   (\<forall>f \<in> set fs. \<exists>n. get_chunk_count t f = Inr n)"
proof (induction fs arbitrary: tot)
  case Nil
  then show ?case by simp
next
  case (Cons f fs)
  show ?case
  proof (cases "get_chunk_count t f")
    case (Inl e)
    then show ?thesis using Cons.prems by simp
  next
    case (Inr n)
    then have "sum_chunk_counts t fs n = Inr tot" using Cons.prems by simp
    then obtain m where m: "sum_chunk_counts t fs 0 = Inr m" "tot = n + m"
      using sum_chunk_counts_acc [of t fs n] by (auto split: sum.splits)
    then show ?thesis using Cons.IH [OF m(1)] Inr by simp
  qed
qed

lemma process_body_run:
  assumes "workspace s = Some ws"
  shows "\<exists>ws'. process_body t tq svc files l s =
     (run_outcome t tq svc l (calls_made s) files,
      s\<lparr>workspace := Some ws', trace := trace s @ run_events t tq l files\<rparr>)"
proof (cases "sum_chunk_counts t files 0")
  case (Inl e)
  have same: "s\<lparr>workspace := Some ws\<rparr> = s" using assms by simp
  show ?thesis
    by (intro exI [of _ ws]) (simp add: process_body_def run_outcome_def run_events_def Inl same)
next
  case (Inr tot)
  show ?thesis
  proof (cases tq)
    case False
    have same: "s\<lparr>workspace := Some ws\<rparr> = s" using assms by simp
    show ?thesis
      by (intro exI [of _ ws]) (simp add: process_body_def run_outcome_def run_events_def Inr False same)
  next
    case True
    let ?s0 = "emit (Created tot) s"
    let ?evs = "file_events t l (length files) tot 1 0 (takeWhile (\<lambda>f. audio f \<noteq> None) files)"
    have w0: "workspace ?s0 = Some ws" using assms by (simp add: emit_def)
    have cm: "calls_made ?s0 = calls_made s" by (simp add: calls_made_emit)
    obtain ws' where pf: "process_files t svc l (length files) tot 1 files [] 0 ?s0 =
       ((if \<forall>f \<in> set files. audio f \<noteq> None
         then Inr ([] @ spec_blocks t svc l 1 (calls_made ?s0) files)
         else Inl (DecodeError (name (hd (dropWhile (\<lambda>f. audio f \<noteq> None) files))))),
        ?s0\<lparr>workspace := Some ws', trace := trace ?s0 @ ?evs\<rparr>)"
      using process_files_run [OF w0, of t svc l "length files" tot 1 files "[]" 0] by blast
    show ?thesis
    proof (cases "\<forall>f \<in> set files. audio f \<noteq> None")
      case all: True
      have "process_body t tq svc files l s =
          (Inr (spec_blocks t svc l 1 (calls_made s) files),
           emit Closed (?s0\<lparr>workspace := Some ws', trace := trace ?s0 @ ?evs\<rparr>))"
        using all pf by (simp add: process_body_def Inr True cm)
      moreover have "emit Closed (?s0\<lparr>workspace := Some ws', trace := trace ?s0 @ ?evs\<rparr>) =
          s\<lparr>workspace := Some ws', trace := trace s @ run_events t tq l files\<rparr>"
        using all by (simp add: emit_def run_events_def Inr True)
      moreover have "run_outcome t tq svc l (calls_made s) files =
          Inr (spec_blocks t svc l 1 (calls_made s) files)"
        using all by (simp add: run_outcome_def Inr True)
      ultimately show ?thesis by (intro exI [of _ ws']) (simp only:)
    next
      case some: False
      have "process_body t tq svc files l s =
          (Inl (DecodeError (name (hd (dropWhile (\<lambda>f. audio f \<noteq> None) files)))),
           ?s0\<lparr>workspace := Some ws', trace := trace ?s0 @ ?evs\<rparr>)"
        using some pf by (simp add: process_body_def Inr True)
      moreover have "?s0\<lparr>workspace := Some ws', trace := trace ?s0 @ ?evs\<rparr> =
          s\<lparr>workspace := Some ws', trace := trace s @ run_events t tq l files\<rparr>"
        using some by (simp add: emit_def run_events_def Inr True)
      moreover have "run_outcome t tq svc l (calls_made s) files =
          Inl (DecodeError (name (hd (dropWhile (\<lambda>f. audio f \<noteq> None) files))))"
        using some by (simp add: run_outcome_def Inr True)
      ultimately show ?thesis by (intro exI [of _ ws']) (simp only:)
    qed
  qed
qed

lemma process_sequential_files_run:
  "\<exists>ws'. process_sequential_files t tq svc files l s =
     ((if \<not> stdout_open s then Inl PrintError
       else case run_outcome t tq svc l (calls_made s) files of
              Inl e \<Rightarrow> Inl e
            | Inr all_transcripts \<Rightarrow> Inr (join [10, 10] all_transcripts)),
      s\<lparr>workspace := (if stdout_open s then None else Some ws'),
        trace := trace s @ run_events t tq l files\<rparr>)"
proof -
  let ?s0 = "s\<lparr>workspace := Some []\<rparr>"
  obtain ws' where pb: "process_body t tq svc files l ?s0 =
     (run_outcome t tq svc l (calls_made ?s0) files,
      ?s0\<lparr>workspace := Some ws', trace := trace ?s0 @ run_events t tq l files\<rparr>)"
    using process_body_run [of ?s0 "[]" t tq svc files l] by auto
  show ?thesis
    by (intro exI [of _ ws'])
      (simp add: process_sequential_files_def pb cleanup_def split: sum.splits)
qed

lemma map_filter_append:
  "List.map_filter f (xs @ ys) = List.map_filter f xs @ List.map_filter f ys"
  by (simp add: List.map_filter_def)

lemma view_segment_events:
  "List.map_filter counter_view (segment_events i nf nc tot l j cur ps) =
     concat (map (\<lambda>c. [Inl (c, tot), Inr 1]) [Suc cur ..< Suc (cur + length ps)])"
proof (induction ps arbitrary: j cur)
  case Nil
  then show ?case by (simp add: List.map_filter_simps)
next
  case (Cons p ps)
  have up: "[Suc cur ..< Suc (cur + length (p # ps))] =
      Suc cur # [Suc (Suc cur) ..< Suc (Suc cur + length ps)]"
    by (simp add: upt_conv_Cons del: upt_Suc)
  show ?case
    unfolding up
    by (simp add: List.map_filter_simps map_filter_append Cons.IH del: upt_Suc)
qed

lemma view_file_events:
  "List.map_filter counter_view (file_events t l nf tot i cur fs) =
     concat (map (\<lambda>c. [Inl (c, tot), Inr 1])
       [Suc cur ..< Suc (cur + length (concat (map (segments t) fs)))])"
proof (induction fs arbitrary: i cur)
  case Nil
  then show ?case by (simp add: List.map_filter_simps)
next
  case (Cons f fs)
  let ?n = "length (segments t f)"
  let ?m = "length (concat (map (segments t) fs))"
  have "[Suc cur ..< Suc (cur + ?n) + ?m] =
      [Suc cur ..< Suc (cur + ?n)] @ [Suc (cur + ?n) ..< Suc (cur + ?n) + ?m]"
    by (rule upt_add_eq_append) simp
  then have up: "[Suc cur ..< Suc (cur + (?n + ?m))] =
      [Suc cur ..< Suc (cur + ?n)] @ [Suc (cur + ?n) ..< Suc (cur + ?n + ?m)]"
    by (simp add: add.assoc del: upt_Suc)
  show ?case
    by (simp add: map_filter_append view_segment_events Cons.IH up del: upt_Suc)
qed

lemma attempted_le_total:
  "sum_chunk_counts t fs 0 = Inr tot \<Longrightarrow>
   length (concat (map (segments t) (takeWhile (\<lambda>f. audio f \<noteq> None) fs))) \<le> tot"
proof (induction fs arbitrary: tot)
  case Nil
  then show ?case by simp
next
  case (Cons f fs)
  show ?case
  proof (cases "get_chunk_count t f")
    case (Inl e)
    then show ?thesis using Cons.prems by simp
  next
    case (Inr n)
    then have "sum_chunk_counts t fs n = Inr tot" using Cons.prems by simp
    then obtain m where m: "sum_chunk_counts t fs 0 = Inr m" "tot = n + m"
      using sum_chunk_counts_acc [of t fs n] by (auto split: sum.splits)
    show ?thesis
    proof (cases "audio f")
      case None
      then show ?thesis by simp
    next
      case (Some a)
      then have "n = length (segments t f)"
        using get_chunk_count_decodable [OF Some, of t] Inr by simp
      then show ?thesis using Cons.IH [OF m(1)] m(2) Some by simp
    qed
  qed
qed

lemma attempted_eq_total:
  "sum_chunk_counts t fs 0 = Inr tot \<Longrightarrow> \<forall>f \<in> set fs. audio f \<noteq> None \<Longrightarrow>
   length (concat (map (segments t) fs)) = tot"
proof (induction fs arbitrary: tot)
  case Nil
  then show ?case by simp
next
  case (Cons f fs)
  obtain a where a: "audio f = Some a" using Cons.prems(2) by auto
  have n: "get_chunk_count t f = Inr (length (segments t f))"
    by (rule get_chunk_count_decodable [OF a])
  then have "sum_chunk_counts t fs (length (segments t f)) = Inr tot" using Cons.prems by simp
  then obtain m where m: "sum_chunk_counts t fs 0 = Inr m" "tot = length (segments t f) + m"
    using sum_chunk_counts_acc [of t fs "length (segments t f)"] by (auto split: sum.splits)
  show ?case using Cons.IH [OF m(1)] Cons.prems(2) m(2) by simp
qed

lemma sum_chunk_counts_decodable:
  "\<forall>f \<in> set fs. audio f \<noteq> None \<Longrightarrow> \<exists>n. sum_chunk_counts t fs acc = Inr n"
  using sum_chunk_counts_fails [of t fs acc]
  by (cases "sum_chunk_counts t fs acc") auto

lemma run_outcome_ok:
  "run_outcome t tq svc l k files = Inr bs \<longleftrightarrow>
     tq \<and> (\<forall>f \<in> set files. audio f \<noteq> None) \<and> bs = spec_blocks t svc l 1 k files"
proof (cases "sum_chunk_counts t files 0")
  case (Inl e)
  then show ?thesis
    using sum_chunk_counts_fails [OF Inl] by (auto simp: run_outcome_def)
next
  case (Inr n)
  then show ?thesis by (auto simp: run_outcome_def)
qed



subsection \<open>Answers that count as failures\<close>

lemma transcribe_audio_result:
  "transcribe_audio svc p l s = (r, s2) \<Longrightarrow>
   startswith r (lit ''[ERROR'') \<or> (\<exists>k raw. svc k p l = Some raw \<and> r = strip raw)"
  by (auto simp: transcribe_audio_def startswith_def lit_def split: if_splits option.splits)

lemma kept_texts:
  "\<forall>x \<in> set ft. x \<noteq> [] \<and> \<not> startswith x (lit ''[ERROR'') \<and>
      (\<exists>k p raw. svc k p l = Some raw \<and> x = strip raw) \<Longrightarrow>
   \<forall>x \<in> set (fst (fst (transcribe_chunks svc l i nf tot nc j ps ft cur s))).
      x \<noteq> [] \<and> \<not> startswith x (lit ''[ERROR'') \<and>
      (\<exists>k p raw. svc k p l = Some raw \<and> x = strip raw)"
proof (induction ps arbitrary: j ft cur s)
  case Nil
  then show ?case by simp
next
  case (Cons p ps)
  obtain r s2 where ta: "transcribe_audio svc p l (emit (Described i nf j nc (Suc cur) tot) s) = (r, s2)"
    by (cases "transcribe_audio svc p l (emit (Described i nf j nc (Suc cur) tot) s)")
  let ?ft = "if r \<noteq> [] \<and> \<not> startswith r (lit ''[ERROR'') then ft @ [r] else ft"
  have inv: "\<forall>x \<in> set ?ft. x \<noteq> [] \<and> \<not> startswith x (lit ''[ERROR'') \<and>
      (\<exists>k p raw. svc k p l = Some raw \<and> x = strip raw)"
    using Cons.prems transcribe_audio_result [OF ta] by auto
  have step: "transcribe_chunks svc l i nf tot nc j (p # ps) ft cur s =
      transcribe_chunks svc l i nf tot nc (Suc j) ps ?ft (Suc cur) (emit (Updated (Suc 0)) s2)"
    by (simp add: ta)
  show ?case unfolding step by (rule Cons.IH [OF inv])
qed

lemma successful_text_excluded:
  "successful_text (case a of None \<Rightarrow> None
      | Some raw \<Rightarrow> if strip raw = [] \<or> startswith (strip raw) (lit ''[ERROR'') then None else Some raw) =
   successful_text a"
  by (simp add: successful_text_def split: option.splits)

lemma spec_texts_cong:
  "(\<And>k p. successful_text (svc' k p l) = successful_text (svc k p l)) \<Longrightarrow>
   spec_texts svc' l k ps = spec_texts svc l k ps"
proof (induction ps arbitrary: k)
  case Nil
  then show ?case by simp
next
  case (Cons p ps)
  have "spec_texts svc' l k' ps = spec_texts svc l k' ps" for k'
    by (rule Cons.IH) (rule Cons.prems)
  then show ?case by (simp add: Cons.prems)
qed

lemma spec_blocks_cong:
  "(\<And>k p. successful_text (svc' k p l) = successful_text (svc k p l)) \<Longrightarrow>
   spec_blocks t svc' l i k fs = spec_blocks t svc l i k fs"
proof (induction fs arbitrary: i k)
  case Nil
  then show ?case by simp
next
  case (Cons f fs)
  have a: "spec_texts svc' l k' ps = spec_texts svc l k' ps" for k' ps
    by (rule spec_texts_cong) (rule Cons.prems)
  have b: "spec_blocks t svc' l i' k' fs = spec_blocks t svc l i' k' fs" for i' k'
    by (rule Cons.IH) (rule Cons.prems)
  show ?case by (simp add: a b)
qed

lemma run_outcome_cong:
  "(\<And>k p. successful_text (svc' k p l) = successful_text (svc k p l)) \<Longrightarrow>
   run_outcome t tq svc' l k fs = run_outcome t tq svc l k fs"
proof -
  assume "\<And>k p. successful_text (svc' k p l) = successful_text (svc k p l)"
  then have "spec_blocks t svc' l 1 k fs = spec_blocks t svc l 1 k fs"
    by (rule spec_blocks_cong)
  then show ?thesis by (simp only: run_outcome_def)
qed


lemma run_trace:
  "trace (snd (process_sequential_files t tq svc files l s)) = trace s @ run_events t tq l files"
  using process_sequential_files_run [of t tq svc files l s] by auto

lemma run_result:
  "fst (process_sequential_files t tq svc files l s) =
     (if \<not> stdout_open s then Inl PrintError
      else case run_outcome t tq svc l (calls_made s) files of
             Inl e \<Rightarrow> Inl e
           | Inr all_transcripts \<Rightarrow> Inr (join [10, 10] all_transcripts))"
  using process_sequential_files_run [of t tq svc files l s] by auto

text \<open>
  Claim C10. A run in which the service answers, for some segments, with a text that is
  empty or begins with \<open>[ERROR\<close> once the white space at its ends is removed, returns what
  the run returns in which the calls for those segments fail instead, and does the same
  calls and the same steps of the progress bar. Every text that the loop over the
  segments of a file keeps for the join is the trimmed text of an answer of the service,
  is not empty and does not begin with \<open>[ERROR\<close>.
\<close>

theorem excluded_text_treated_as_failure:
  "fst (process_sequential_files t tq
       (\<lambda>k p l'. case svc k p l' of
                    None \<Rightarrow> None
                  | Some raw \<Rightarrow>
                      if strip raw = [] \<or> startswith (strip raw) (lit ''[ERROR'') then None
                      else Some raw) files l s) =
     fst (process_sequential_files t tq svc files l s) \<and>
   trace (snd (process_sequential_files t tq
       (\<lambda>k p l'. case svc k p l' of
                    None \<Rightarrow> None
                  | Some raw \<Rightarrow>
                      if strip raw = [] \<or> startswith (strip raw) (lit ''[ERROR'') then None
                      else Some raw) files l s)) =
     trace (snd (process_sequential_files t tq svc files l s)) \<and>
   (\<forall>x \<in> set (fst (fst (transcribe_chunks svc l i nf tot nc j ps [] cur s'))).
      x \<noteq> [] \<and> \<not> startswith x (lit ''[ERROR'') \<and>
      (\<exists>k p raw. svc k p l = Some raw \<and> x = strip raw))"
proof -
  let ?svc = "\<lambda>k p l'. case svc k p l' of
                    None \<Rightarrow> None
                  | Some raw \<Rightarrow>
                      if strip raw = [] \<or> startswith (strip raw) (lit ''[ERROR'') then None
                      else Some raw"
  have "run_outcome t tq ?svc l (calls_made s) files = run_outcome t tq svc l (calls_made s) files"
    by (rule run_outcome_cong) (rule successful_text_excluded)
  then have "fst (process_sequential_files t tq ?svc files l s) =
      fst (process_sequential_files t tq svc files l s)"
    by (simp only: run_result)
  moreover have "trace (snd (process_sequential_files t tq ?svc files l s)) =
      trace (snd (process_sequential_files t tq svc files l s))"
    by (simp only: run_trace)
  moreover have "\<forall>x \<in> set (fst (fst (transcribe_chunks svc l i nf tot nc j ps [] cur s'))).
      x \<noteq> [] \<and> \<not> startswith x (lit ''[ERROR'') \<and>
      (\<exists>k p raw. svc k p l = Some raw \<and> x = strip raw)"
    by (rule kept_texts) simp
  ultimately show ?thesis by blast
qed

theorem excluded_text_treated_as_failure_witness:
  "fst (process_sequential_files (AudioTranscriber False) True
     (\<lambda>k p l. if k = 0 then Some (lit '' hello '') else if k = 1 then Some (lit '' [ERROR: quota] '')
        else Some (lit ''  ''))
     [\<lparr>name = lit ''meet_1.m4a'', st_size = 5242880, audio = Some (replicate 300000 0), readable = True\<rparr>,
      \<lparr>name = lit ''meet_2.m4a'', st_size = 5242880, audio = Some (replicate 300000 0), readable = True\<rparr>,
      \<lparr>name = lit ''meet_3.m4a'', st_size = 5242880, audio = Some (replicate 300000 0), readable = True\<rparr>]
     (lit ''th'') \<lparr>workspace = None, trace = [], files_written = [], stdout_open = True\<rparr>) =
   Inr (lit ''=== File 1: meet_1.m4a ==='' @ [10] @ lit ''hello'')"
proof -
  define f1 where "f1 = \<lparr>name = lit ''meet_1.m4a'', st_size = 5242880,
    audio = Some (replicate 300000 (0::nat)), readable = True\<rparr>"
  define f2 where "f2 = \<lparr>name = lit ''meet_2.m4a'', st_size = 5242880,
    audio = Some (replicate 300000 (0::nat)), readable = True\<rparr>"
  define f3 where "f3 = \<lparr>name = lit ''meet_3.m4a'', st_size = 5242880,
    audio = Some (replicate 300000 (0::nat)), readable = True\<rparr>"
  define svc :: service where "svc = (\<lambda>k p l. if k = 0 then Some (lit '' hello '')
    else if k = 1 then Some (lit '' [ERROR: quota] '') else Some (lit ''  ''))"
  define s0 where "s0 = \<lparr>workspace = None, trace = [], files_written = [], stdout_open = True\<rparr>"
  let ?t = "AudioTranscriber False"
  let ?svc = "\<lambda>k p l'. case svc k p l' of
                    None \<Rightarrow> None
                  | Some raw \<Rightarrow>
                      if strip raw = [] \<or> startswith (strip raw) (lit ''[ERROR'') then None
                      else Some raw"
  have g: "segments ?t f1 = [SourcePath f1]" "segments ?t f2 = [SourcePath f2]"
      "segments ?t f3 = [SourcePath f3]"
    by (simp_all add: segments_def AudioTranscriber_def get_file_size_mb_def f1_def f2_def f3_def)
  have op: "readable f1" "readable f2" "readable f3" by (simp_all add: f1_def f2_def f3_def)
  have a: "successful_text (?svc 0 p l) = Some (lit ''hello'')"
      "successful_text (?svc (Suc 0) p l) = None"
      "successful_text (?svc (Suc (Suc 0)) p l) = None" for p l
    by (simp_all add: svc_def successful_text_def strip_def isspace_def startswith_def lit_def)
  have dec: "\<forall>f \<in> set [f1, f2, f3]. audio f \<noteq> None" by (simp add: f1_def f2_def f3_def)
  obtain n where n: "sum_chunk_counts ?t [f1, f2, f3] 0 = Inr n"
    using sum_chunk_counts_decodable [OF dec] by blast
  have b: "spec_blocks ?t ?svc (lit ''th'') 1 (calls_made s0) [f1, f2, f3] =
      [file_block ?t 1 f1 (lit ''hello'')]"
    by (simp add: g op a calls_made_def s0_def)
  have s1: "str_nat (Suc 0) = [49]" by (simp add: str_nat.simps [of "Suc 0"])
  have fb: "join [10, 10] [file_block ?t 1 f1 (lit ''hello'')] =
      lit ''=== File 1: meet_1.m4a ==='' @ [10] @ lit ''hello''"
    by (simp add: file_block_def AudioTranscriber_def f1_def s1 lit_def)
  have "run_outcome ?t True ?svc (lit ''th'') (calls_made s0) [f1, f2, f3] =
      Inr [file_block ?t 1 f1 (lit ''hello'')]"
    using dec by (simp only: run_outcome_def n b sum.case) simp
  then have "fst (process_sequential_files ?t True ?svc [f1, f2, f3] (lit ''th'') s0) =
      Inr (lit ''=== File 1: meet_1.m4a ==='' @ [10] @ lit ''hello'')"
    by (simp only: run_result fb sum.case) (simp add: s0_def)
  then have "fst (process_sequential_files ?t True svc [f1, f2, f3] (lit ''th'') s0) =
      Inr (lit ''=== File 1: meet_1.m4a ==='' @ [10] @ lit ''hello'')"
    using excluded_text_treated_as_failure [of ?t True svc "[f1, f2, f3]" "lit ''th''" s0]
    by simp
  then show ?thesis unfolding f1_def f2_def f3_def svc_def s0_def .
qed

subsection \<open>Files that cannot be decoded\<close>

lemma described_segment_events:
  "Described i' n j' nc' c tot' \<in> set (segment_events i nf nc tot l j cur ps) \<Longrightarrow> i' = i"
  by (induction ps arbitrary: j cur) (auto split: if_splits)

lemma described_file_events:
  "Described i' n j' nc' c tot' \<in> set (file_events t l nf tot i cur fs) \<Longrightarrow>
   i \<le> i' \<and> i' < i + length fs"
proof (induction fs arbitrary: i cur)
  case Nil
  then show ?case by simp
next
  case (Cons f fs)
  then show ?case
    using described_segment_events [of i' n j' nc' c tot' i nf "length (segments t f)" tot l 1 cur "segments t f"]
    by fastforce
qed

lemma described_run_events:
  assumes "Described i n j nc c tot \<in> set (run_events t tq l files)"
  shows "1 \<le> i \<and> i \<le> length (takeWhile (\<lambda>f. audio f \<noteq> None) files)"
proof (cases "sum_chunk_counts t files 0")
  case (Inl e)
  then show ?thesis using assms by (simp add: run_events_def)
next
  case (Inr m)
  let ?fs = "takeWhile (\<lambda>f. audio f \<noteq> None) files"
  have "Described i n j nc c tot \<in> set (file_events t l (length files) m 1 0 ?fs)"
    using assms Inr by (auto simp: run_events_def split: if_splits)
  then have "1 \<le> i \<and> i < 1 + length ?fs" by (rule described_file_events)
  then show ?thesis by simp
qed

lemma run_outcome_undecodable:
  "\<exists>f \<in> set files. audio f = None \<Longrightarrow>
   \<exists>e. run_outcome t tq svc l k files = Inl e \<and>
       (tq \<longrightarrow> (\<exists>f \<in> set files. audio f = None \<and> e = DecodeError (name f)))"
proof (cases "sum_chunk_counts t files 0")
  case (Inl e)
  then show ?thesis using sum_chunk_counts_fails [OF Inl] by (auto simp: run_outcome_def)
next
  case (Inr n)
  assume bad: "\<exists>f \<in> set files. audio f = None"
  let ?d = "dropWhile (\<lambda>f. audio f \<noteq> None) files"
  have ne: "?d \<noteq> []" using bad by (auto simp: dropWhile_eq_Nil_conv)
  then have "hd ?d \<in> set ?d" by (rule hd_in_set)
  then have m: "hd ?d \<in> set files" by (rule set_dropWhileD)
  have "\<not> (audio (hd ?d) \<noteq> None)" using ne by (rule hd_dropWhile)
  then have u: "audio (hd ?d) = None" by simp
  show ?thesis
  proof (cases tq)
    case True
    then show ?thesis using bad Inr m u by (auto simp: run_outcome_def)
  next
    case False
    then show ?thesis using Inr by (simp add: run_outcome_def)
  qed
qed

text \<open>
  Claim C4, as stated, fails: the first of two files cannot be decoded and the second
  can. The run ends with the exception of the decoder, and the second file is never
  attempted: the progress bar is created and nothing follows.
\<close>

theorem decode_failure_stops_later_files:
  "process_sequential_files (AudioTranscriber False) True (\<lambda>k p l. Some (lit ''hello''))
     [\<lparr>name = lit ''meet_1.m4a'', st_size = 5242880, audio = None, readable = True\<rparr>,
      \<lparr>name = lit ''meet_2.m4a'', st_size = 5242880, audio = Some (replicate 300000 0), readable = True\<rparr>]
     (lit ''th'') \<lparr>workspace = None, trace = [], files_written = [], stdout_open = True\<rparr> =
   (Inl (DecodeError (lit ''meet_1.m4a'')),
    \<lparr>workspace = None, trace = [Created 2], files_written = [], stdout_open = True\<rparr>)"
  by (simp add: process_sequential_files_def process_body_def cleanup_def chunk_audio_file_def
      get_chunk_count_def get_file_size_mb_def AudioTranscriber_def emit_def)

text \<open>
  Claim C4, amended. When a file of the batch cannot be decoded the whole batch is
  aborted: the run ends with an exception, which is the decode error of an undecodable
  file when the progress bar is available and the message of the \<open>finally\<close> clause is
  printed, and no file at or after the first undecodable file is attempted: every
  description of the progress bar made during the run carries the index of a file that
  stands before it.
\<close>

theorem decode_failure_aborts_batch:
  assumes "\<exists>f \<in> set files. audio f = None"
  shows "(\<exists>e. fst (process_sequential_files t tq svc files l s) = Inl e) \<and>
     (tq \<and> stdout_open s \<longrightarrow>
        (\<exists>f \<in> set files. audio f = None \<and>
           fst (process_sequential_files t tq svc files l s) = Inl (DecodeError (name f)))) \<and>
     (\<forall>i n j nc c tot.
        Described i n j nc c tot \<in>
          set (drop (length (trace s)) (trace (snd (process_sequential_files t tq svc files l s)))) \<longrightarrow>
        i \<le> length (takeWhile (\<lambda>f. audio f \<noteq> None) files))"
proof -
  obtain e where e: "run_outcome t tq svc l (calls_made s) files = Inl e"
    "tq \<longrightarrow> (\<exists>f \<in> set files. audio f = None \<and> e = DecodeError (name f))"
    using run_outcome_undecodable [OF assms] by blast
  have "\<exists>e. fst (process_sequential_files t tq svc files l s) = Inl e"
    by (simp add: run_result e(1))
  moreover have "tq \<and> stdout_open s \<longrightarrow>
        (\<exists>f \<in> set files. audio f = None \<and>
           fst (process_sequential_files t tq svc files l s) = Inl (DecodeError (name f)))"
    using e by (auto simp: run_result)
  moreover have "\<forall>i n j nc c tot.
        Described i n j nc c tot \<in>
          set (drop (length (trace s)) (trace (snd (process_sequential_files t tq svc files l s)))) \<longrightarrow>
        i \<le> length (takeWhile (\<lambda>f. audio f \<noteq> None) files)"
    using described_run_events by (simp add: run_trace)
  ultimately show ?thesis by blast
qed

theorem decode_failure_aborts_batch_witness:
  "(\<exists>f \<in> set
       [\<lparr>name = lit ''meet_1.m4a'', st_size = 5242880, audio = Some (replicate 300000 0), readable = True\<rparr>,
        \<lparr>name = lit ''meet_2.m4a'', st_size = 5242880, audio = None, readable = True\<rparr>,
        \<lparr>name = lit ''meet_3.m4a'', st_size = 5242880, audio = Some (replicate 300000 0), readable = True\<rparr>].
      audio f = None) \<and>
   fst (process_sequential_files (AudioTranscriber False) True (\<lambda>k p l. Some (lit ''hello''))
     [\<lparr>name = lit ''meet_1.m4a'', st_size = 5242880, audio = Some (replicate 300000 0), readable = True\<rparr>,
      \<lparr>name = lit ''meet_2.m4a'', st_size = 5242880, audio = None, readable = True\<rparr>,
      \<lparr>name = lit ''meet_3.m4a'', st_size = 5242880, audio = Some (replicate 300000 0), readable = True\<rparr>]
     (lit ''th'') \<lparr>workspace = None, trace = [], files_written = [], stdout_open = True\<rparr>) =
   Inl (DecodeError (lit ''meet_2.m4a''))"
  using decode_failure_aborts_batch
    [of "[\<lparr>name = lit ''meet_1.m4a'', st_size = 5242880, audio = Some (replicate 300000 0), readable = True\<rparr>,
          \<lparr>name = lit ''meet_2.m4a'', st_size = 5242880, audio = None, readable = True\<rparr>,
          \<lparr>name = lit ''meet_3.m4a'', st_size = 5242880, audio = Some (replicate 300000 0), readable = True\<rparr>]"
        "AudioTranscriber False" True "\<lambda>k p l. Some (lit ''hello'')" "lit ''th''"
        "\<lparr>workspace = None, trace = [], files_written = [], stdout_open = True\<rparr>"]
  by simp

subsection \<open>The progress counter\<close>

text \<open>
  Claim C6. When planning succeeds and the progress bar is available, the first event of
  a run is the creation of the counter with the total, which is the sum over all files of
  the planned number of segments; no transcription call comes before it. What the events
  of the run show of the counter is: zero of the total at the start, then for each
  attempted segment in turn its number, counted from one, beside the same total, followed
  by a step of exactly one, whatever the outcome of the attempt. The number \<open>k\<close> of
  attempted segments is at most the total, and is the total when the run returns a
  transcript. When planning fails or the bar is not available the run has no event.
\<close>

theorem progress_counter_total_and_steps:
  "\<exists>evs. trace (snd (process_sequential_files t tq svc files l s)) = trace s @ evs \<and>
     (case sum_chunk_counts t files 0 of
        Inl e \<Rightarrow> evs = []
      | Inr total_chunks \<Rightarrow>
          if \<not> tq then evs = []
          else
            total_chunks =
              sum_list (map (\<lambda>f. case get_chunk_count t f of Inl e \<Rightarrow> 0 | Inr n \<Rightarrow> n) files) \<and>
            (\<exists>rest. evs = Created total_chunks # rest) \<and>
            (\<exists>k \<le> total_chunks.
               List.map_filter counter_view evs =
                 Inl (0, total_chunks) #
                 concat (map (\<lambda>c. [Inl (c, total_chunks), Inr 1]) [1 ..< Suc k]) \<and>
               k = length (concat (map (segments t) (takeWhile (\<lambda>f. audio f \<noteq> None) files))) \<and>
               ((\<exists>txt. fst (process_sequential_files t tq svc files l s) = Inr txt) \<longrightarrow>
                  k = total_chunks)))"
proof (intro exI [of _ "run_events t tq l files"] conjI)
  show "trace (snd (process_sequential_files t tq svc files l s)) = trace s @ run_events t tq l files"
    by (rule run_trace)
next
  show "case sum_chunk_counts t files 0 of
        Inl e \<Rightarrow> run_events t tq l files = []
      | Inr total_chunks \<Rightarrow>
          if \<not> tq then run_events t tq l files = []
          else
            total_chunks =
              sum_list (map (\<lambda>f. case get_chunk_count t f of Inl e \<Rightarrow> 0 | Inr n \<Rightarrow> n) files) \<and>
            (\<exists>rest. run_events t tq l files = Created total_chunks # rest) \<and>
            (\<exists>k \<le> total_chunks.
               List.map_filter counter_view (run_events t tq l files) =
                 Inl (0, total_chunks) #
                 concat (map (\<lambda>c. [Inl (c, total_chunks), Inr 1]) [1 ..< Suc k]) \<and>
               k = length (concat (map (segments t) (takeWhile (\<lambda>f. audio f \<noteq> None) files))) \<and>
               ((\<exists>txt. fst (process_sequential_files t tq svc files l s) = Inr txt) \<longrightarrow>
                  k = total_chunks))"
  proof (cases "sum_chunk_counts t files 0")
    case (Inl e)
    then show ?thesis by (simp add: run_events_def)
  next
    case (Inr n)
    show ?thesis
    proof (cases tq)
      case False
      then show ?thesis by (simp add: run_events_def Inr)
    next
      case True
      let ?k = "length (concat (map (segments t) (takeWhile (\<lambda>f. audio f \<noteq> None) files)))"
      have a: "n = sum_list (map (\<lambda>f. case get_chunk_count t f of Inl e \<Rightarrow> 0 | Inr n \<Rightarrow> n) files)"
        using sum_chunk_counts_sum [OF Inr] by simp
      have b: "\<exists>rest. run_events t tq l files = Created n # rest"
        by (simp add: run_events_def Inr True)
      have c: "?k \<le> n" by (rule attempted_le_total [OF Inr])
      have d: "List.map_filter counter_view (run_events t tq l files) =
          Inl (0, n) # concat (map (\<lambda>c. [Inl (c, n), Inr 1]) [1 ..< Suc ?k])"
        by (simp add: run_events_def Inr True List.map_filter_simps map_filter_append
            view_file_events del: upt_Suc)
      have e: "?k = n" if "fst (process_sequential_files t tq svc files l s) = Inr tx" for tx
      proof -
        from that obtain bs where "run_outcome t tq svc l (calls_made s) files = Inr bs"
          by (auto simp: run_result split: if_splits sum.splits)
        then have all: "\<forall>f \<in> set files. audio f \<noteq> None"
          using run_outcome_ok [of t tq svc l "calls_made s" files bs] by simp
        then have "takeWhile (\<lambda>f. audio f \<noteq> None) files = files"
          by (simp add: takeWhile_eq_all_conv)
        then have "?k = length (concat (map (segments t) files))" by (simp only:)
        also have "\<dots> = n" by (rule attempted_eq_total [OF Inr all])
        finally show ?thesis .
      qed
      show ?thesis
        using a b c d e by (simp only: Inr True sum.case not_True_eq_False if_False) blast
    qed
  qed
qed

theorem progress_counter_total_and_steps_witness:
  "List.map_filter counter_view (trace (snd (process_sequential_files (AudioTranscriber False) True
     (\<lambda>k p l. if k = 2 then None else Some (lit ''hello''))
     [\<lparr>name = lit ''meet_1.m4a'', st_size = 5242880, audio = Some (replicate 300000 0), readable = True\<rparr>,
      \<lparr>name = lit ''meet_2.m4a'', st_size = 26214400, audio = Some (replicate 1320000 0), readable = True\<rparr>]
     (lit ''th'') \<lparr>workspace = None, trace = [], files_written = [], stdout_open = True\<rparr>))) =
   [Inl (0, 4), Inl (1, 4), Inr 1, Inl (2, 4), Inr 1, Inl (3, 4), Inr 1, Inl (4, 4), Inr 1]"
proof -
  define f1 where "f1 = \<lparr>name = lit ''meet_1.m4a'', st_size = 5242880,
    audio = Some (replicate 300000 (0::nat)), readable = True\<rparr>"
  define f2 where "f2 = \<lparr>name = lit ''meet_2.m4a'', st_size = 26214400,
    audio = Some (replicate 1320000 (0::nat)), readable = True\<rparr>"
  define svc :: service where "svc = (\<lambda>k p l. if k = 2 then None else Some (lit ''hello''))"
  define s0 where "s0 = \<lparr>workspace = None, trace = [], files_written = [], stdout_open = True\<rparr>"
  let ?t = "AudioTranscriber False"
  have n: "nat \<lceil>real 1320000 / (10 * 60 * 1000)\<rceil> = 3" by simp
  have c1: "get_chunk_count ?t f1 = Inr 1"
    by (simp add: get_chunk_count_def AudioTranscriber_def get_file_size_mb_def f1_def)
  have c2: "get_chunk_count ?t f2 = Inr 3"
    by (simp add: get_chunk_count_def AudioTranscriber_def get_file_size_mb_def f2_def
        length_make_chunks n)
  have tot: "sum_chunk_counts ?t [f1, f2] 0 = Inr 4" by (simp add: c1 c2)
  have dec: "takeWhile (\<lambda>f. audio f \<noteq> None) [f1, f2] = [f1, f2]" by (simp add: f1_def f2_def)
  have g1: "length (segments ?t f1) = 1"
    using get_chunk_count_decodable [of f1 "replicate 300000 0" ?t] c1 by (simp add: f1_def)
  have g2: "length (segments ?t f2) = 3"
    using get_chunk_count_decodable [of f2 "replicate 1320000 0" ?t] c2 by (simp add: f2_def)
  have k: "length (concat (map (segments ?t) [f1, f2])) = 4" by (simp add: g1 g2)
  have u: "[Suc 0 ..< 5] = [Suc 0, 2, 3, 4]" by (simp add: upt_rec)
  obtain evs where evs: "trace (snd (process_sequential_files ?t True svc [f1, f2] (lit ''th'') s0)) =
        trace s0 @ evs"
      "List.map_filter counter_view evs =
         Inl (0, 4) # concat (map (\<lambda>c. [Inl (c, 4), Inr 1]) [1 ..< Suc 4])"
    using progress_counter_total_and_steps [of ?t True svc "[f1, f2]" "lit ''th''" s0]
    by (auto simp only: tot dec k sum.case not_True_eq_False if_False)
  have "List.map_filter counter_view
      (trace (snd (process_sequential_files ?t True svc [f1, f2] (lit ''th'') s0))) =
      [Inl (0, 4), Inl (1, 4), Inr 1, Inl (2, 4), Inr 1, Inl (3, 4), Inr 1, Inl (4, 4), Inr 1]"
    using evs by (simp add: s0_def u del: upt_Suc)
  then show ?thesis unfolding f1_def f2_def svc_def s0_def .
qed

end
